theory Spec2Isabelle
  imports Main "HOL-Library.AList" "HOL-Library.Word"
begin

section \<open>Data model (graph.h)\<close>

text \<open>
  The structs of \<^verbatim>\<open>graph.h\<close> become records. Field names are kept; where two structs
  share a field name (\<^verbatim>\<open>id\<close>, \<^verbatim>\<open>type\<close>, \<^verbatim>\<open>filePath\<close>, \<^verbatim>\<open>line\<close>, \<^verbatim>\<open>column\<close>) or
  the name is taken in HOL, the field carries the struct as a prefix. A C++ \<^verbatim>\<open>int\<close> is a
  32-bit word (read with \<open>sint\<close>), \<^verbatim>\<open>std::string\<close> is \<open>string\<close>, \<^verbatim>\<open>std::vector\<close>
  is a list.
\<close>

record Symbol =
  sym_id :: string
  name :: string
  sym_type :: string
  sym_filePath :: string
  sym_line :: "32 word"
  sym_column :: "32 word"
  className :: string
  isExported :: bool
  isStatic :: bool

record Reference =
  ref_id :: string
  fromSymbolId :: string
  toSymbolId :: string
  ref_type :: string
  ref_filePath :: string
  ref_line :: "32 word"
  ref_column :: "32 word"

record ImportEntry =
  source :: string
  imported :: "string list"
  isTypeOnly :: bool

record FileData =
  path :: string
  file_symbols :: "Symbol list"
  file_imports :: "ImportEntry list"

text \<open>\<^verbatim>\<open>size_t\<close> counters are natural numbers: each counts entries held in memory.\<close>

record GraphStats =
  totalSymbols :: nat
  totalReferences :: nat
  totalFiles :: nat
  memoryUsageBytes :: nat

text \<open>
  A \<^verbatim>\<open>std::unordered_map\<close> is an association list: \<^verbatim>\<open>find\<close> is \<open>map_of\<close>,
  \<^verbatim>\<open>m[k] = v\<close> is \<open>AList.update\<close> (overwrite in place, or a new entry), \<^verbatim>\<open>erase\<close> is
  \<open>AList.delete\<close>, \<^verbatim>\<open>size()\<close> is the length and a range-for visits the entries in
  list order. The hash table's iteration order is unspecified; the theorems below use
  only the membership and the length of what an iteration produces.
\<close>

type_synonym ('k, 'v) umap = "('k \<times> 'v) list"

record ReferenceGraph =
  symbols :: "(string, Symbol) umap"
  references :: "(string, Reference) umap"
  symbolToReferences :: "(string, string list) umap"
  symbolToCallers :: "(string, string list) umap"
  files :: "(string, FileData) umap"
  dirtyFiles :: "string set"

text \<open>The default member initialisers: \<^verbatim>\<open>Symbol()\<close>.\<close>

definition Symbol_default :: Symbol where
  "Symbol_default =
     \<lparr>sym_id = [], name = [], sym_type = [], sym_filePath = [], sym_line = 0,
      sym_column = 0, className = [], isExported = False, isStatic = False\<rparr>"

text \<open>\<^verbatim>\<open>ReferenceGraph::ReferenceGraph() {}\<close>: every container starts empty.\<close>

definition empty_graph :: ReferenceGraph where
  "empty_graph =
     \<lparr>symbols = [], references = [], symbolToReferences = [], symbolToCallers = [],
      files = [], dirtyFiles = {}\<rparr>"

text \<open>
  \<^verbatim>\<open>m[k]\<close> read as a value: the stored vector, or the empty vector that
  \<^verbatim>\<open>operator[]\<close> default-constructs for a key that is not there.
\<close>

definition at_default :: "(string, string list) umap \<Rightarrow> string \<Rightarrow> string list" where
  "at_default m k = (case map_of m k of None \<Rightarrow> [] | Some l \<Rightarrow> l)"

section \<open>Symbol management\<close>

definition addSymbol :: "ReferenceGraph \<Rightarrow> Symbol \<Rightarrow> ReferenceGraph" where
  "addSymbol g symbol = g\<lparr>symbols := AList.update (sym_id symbol) symbol (symbols g)\<rparr>"

definition addSymbols :: "ReferenceGraph \<Rightarrow> Symbol list \<Rightarrow> ReferenceGraph" where
  "addSymbols g syms = foldl addSymbol g syms"

definition hasSymbol :: "ReferenceGraph \<Rightarrow> string \<Rightarrow> bool" where
  "hasSymbol g symbolId = (map_of (symbols g) symbolId \<noteq> None)"

definition getSymbol :: "ReferenceGraph \<Rightarrow> string \<Rightarrow> Symbol" where
  "getSymbol g symbolId =
     (case map_of (symbols g) symbolId of Some s \<Rightarrow> s | None \<Rightarrow> Symbol_default)"

definition getAllSymbols :: "ReferenceGraph \<Rightarrow> Symbol list" where
  "getAllSymbols g = foldl (\<lambda>result pair. result @ [snd pair]) [] (symbols g)"

section \<open>Reference management\<close>

definition addReference :: "ReferenceGraph \<Rightarrow> Reference \<Rightarrow> ReferenceGraph" where
  "addReference g reference =
     (let g1 = g\<lparr>references := AList.update (ref_id reference) reference (references g)\<rparr>;
          g2 = g1\<lparr>symbolToReferences :=
                 AList.update (fromSymbolId reference)
                   (at_default (symbolToReferences g1) (fromSymbolId reference) @ [ref_id reference])
                   (symbolToReferences g1)\<rparr>
      in g2\<lparr>symbolToCallers :=
              AList.update (toSymbolId reference)
                (at_default (symbolToCallers g2) (toSymbolId reference) @ [ref_id reference])
                (symbolToCallers g2)\<rparr>)"

definition addReferences :: "ReferenceGraph \<Rightarrow> Reference list \<Rightarrow> ReferenceGraph" where
  "addReferences g refs = foldl addReference g refs"

text \<open>
  The body of the loop of \<^verbatim>\<open>removeReferences\<close> for one \<^verbatim>\<open>refId\<close>: when the reference
  is in the table, its id is removed (every occurrence, \<^verbatim>\<open>std::remove\<close> and
  \<^verbatim>\<open>erase\<close>) from the callers vector of its target, which \<^verbatim>\<open>operator[]\<close> creates when
  it is missing, and the reference is erased.
\<close>

definition removeReferences_body :: "ReferenceGraph \<Rightarrow> string \<Rightarrow> ReferenceGraph" where
  "removeReferences_body g refId =
     (case map_of (references g) refId of
        None \<Rightarrow> g
      | Some r \<Rightarrow>
          g\<lparr>symbolToCallers :=
              AList.update (toSymbolId r)
                (removeAll refId (at_default (symbolToCallers g) (toSymbolId r)))
                (symbolToCallers g),
            references := AList.delete refId (references g)\<rparr>)"

text \<open>
  The loop runs over the outgoing vector of \<^verbatim>\<open>symbolId\<close>, which its body never
  touches (the body writes \<^verbatim>\<open>symbolToCallers_\<close> and \<^verbatim>\<open>references_\<close> only).
\<close>

definition removeReferences :: "ReferenceGraph \<Rightarrow> string \<Rightarrow> ReferenceGraph" where
  "removeReferences g symbolId =
     (case map_of (symbolToReferences g) symbolId of
        None \<Rightarrow> g
      | Some ids \<Rightarrow>
          (let g' = foldl removeReferences_body g ids
           in g'\<lparr>symbolToReferences := AList.delete symbolId (symbolToReferences g')\<rparr>))"

definition resolve :: "ReferenceGraph \<Rightarrow> Reference list \<Rightarrow> string \<Rightarrow> Reference list" where
  "resolve g result refId =
     (case map_of (references g) refId of None \<Rightarrow> result | Some r \<Rightarrow> result @ [r])"

definition findCallers :: "ReferenceGraph \<Rightarrow> string \<Rightarrow> Reference list" where
  "findCallers g symbolId =
     (case map_of (symbolToCallers g) symbolId of
        None \<Rightarrow> []
      | Some ids \<Rightarrow> foldl (resolve g) [] ids)"

definition findCallees :: "ReferenceGraph \<Rightarrow> string \<Rightarrow> Reference list" where
  "findCallees g symbolId =
     (case map_of (symbolToReferences g) symbolId of
        None \<Rightarrow> []
      | Some ids \<Rightarrow> foldl (resolve g) [] ids)"

section \<open>File management\<close>

definition addFile :: "ReferenceGraph \<Rightarrow> FileData \<Rightarrow> ReferenceGraph" where
  "addFile g file =
     addSymbols (g\<lparr>files := AList.update (path file) file (files g)\<rparr>) (file_symbols file)"

text \<open>
  The inner loop of \<^verbatim>\<open>removeFile\<close> for one \<^verbatim>\<open>refId\<close> of the callers vector: the
  mirror image of \<open>removeReferences_body\<close>.
\<close>

definition removeFile_body :: "ReferenceGraph \<Rightarrow> string \<Rightarrow> ReferenceGraph" where
  "removeFile_body g refId =
     (case map_of (references g) refId of
        None \<Rightarrow> g
      | Some r \<Rightarrow>
          g\<lparr>symbolToReferences :=
              AList.update (fromSymbolId r)
                (removeAll refId (at_default (symbolToReferences g) (fromSymbolId r)))
                (symbolToReferences g),
            references := AList.delete refId (references g)\<rparr>)"

text \<open>The part of the outer loop body marked \<^verbatim>\<open>// Remove references TO this symbol\<close>.\<close>

definition removeCallers :: "ReferenceGraph \<Rightarrow> string \<Rightarrow> ReferenceGraph" where
  "removeCallers g symbolId =
     (case map_of (symbolToCallers g) symbolId of
        None \<Rightarrow> g
      | Some ids \<Rightarrow>
          (let g' = foldl removeFile_body g ids
           in g'\<lparr>symbolToCallers := AList.delete symbolId (symbolToCallers g')\<rparr>))"

text \<open>The outer loop body of \<^verbatim>\<open>removeFile\<close> for one symbol of the file.\<close>

definition removeFile_symbol :: "ReferenceGraph \<Rightarrow> Symbol \<Rightarrow> ReferenceGraph" where
  "removeFile_symbol g symb =
     (let g1 = removeReferences g (sym_id symb);
          g2 = g1\<lparr>symbols := AList.delete (sym_id symb) (symbols g1)\<rparr>
      in removeCallers g2 (sym_id symb))"

definition removeFile :: "ReferenceGraph \<Rightarrow> string \<Rightarrow> ReferenceGraph" where
  "removeFile g filePath =
     (case map_of (files g) filePath of
        None \<Rightarrow> g
      | Some f \<Rightarrow>
          (let g' = foldl removeFile_symbol g (file_symbols f)
           in g'\<lparr>files := AList.delete filePath (files g')\<rparr>))"

definition updateFile :: "ReferenceGraph \<Rightarrow> string \<Rightarrow> FileData \<Rightarrow> ReferenceGraph" where
  "updateFile g filePath file = addFile (removeFile g filePath) file"

definition markFileDirty :: "ReferenceGraph \<Rightarrow> string \<Rightarrow> ReferenceGraph" where
  "markFileDirty g filePath = g\<lparr>dirtyFiles := insert filePath (dirtyFiles g)\<rparr>"

definition clearDirtyFiles :: "ReferenceGraph \<Rightarrow> ReferenceGraph" where
  "clearDirtyFiles g = g\<lparr>dirtyFiles := {}\<rparr>"

definition hasFile :: "ReferenceGraph \<Rightarrow> string \<Rightarrow> bool" where
  "hasFile g filePath = (map_of (files g) filePath \<noteq> None)"

section \<open>Queries and statistics\<close>

definition isSymbolUsed :: "ReferenceGraph \<Rightarrow> string \<Rightarrow> bool" where
  "isSymbolUsed g symbolId =
     (case map_of (symbolToCallers g) symbolId of None \<Rightarrow> False | Some ids \<Rightarrow> ids \<noteq> [])"

definition findUnusedSymbols :: "ReferenceGraph \<Rightarrow> Symbol list" where
  "findUnusedSymbols g =
     foldl (\<lambda>unused pair. if \<not> isSymbolUsed g (fst pair) then unused @ [snd pair] else unused)
       [] (symbols g)"

definition findSymbolsByName :: "ReferenceGraph \<Rightarrow> string \<Rightarrow> Symbol list" where
  "findSymbolsByName g nm =
     foldl (\<lambda>result pair. if name (snd pair) = nm then result @ [snd pair] else result)
       [] (symbols g)"

definition findSymbolsByFile :: "ReferenceGraph \<Rightarrow> string \<Rightarrow> Symbol list" where
  "findSymbolsByFile g filePath =
     (case map_of (files g) filePath of Some f \<Rightarrow> file_symbols f | None \<Rightarrow> [])"

definition findExportedSymbols :: "ReferenceGraph \<Rightarrow> Symbol list" where
  "findExportedSymbols g =
     foldl (\<lambda>result pair. if isExported (snd pair) then result @ [snd pair] else result)
       [] (symbols g)"

text \<open>
  \<^verbatim>\<open>sizeof(Symbol)\<close>, \<^verbatim>\<open>sizeof(Reference)\<close> and \<^verbatim>\<open>sizeof(FileData)\<close> depend on the
  platform; they are the three parameters of \<open>calculateMemoryUsage\<close>. The sum is taken
  in the natural numbers: it is the value the source computes as long as that value fits
  \<^verbatim>\<open>size_t\<close>.
\<close>

definition calculateMemoryUsage :: "nat \<Rightarrow> nat \<Rightarrow> nat \<Rightarrow> ReferenceGraph \<Rightarrow> nat" where
  "calculateMemoryUsage sizeof_Symbol sizeof_Reference sizeof_FileData g =
     length (symbols g) * sizeof_Symbol + length (references g) * sizeof_Reference
       + length (files g) * sizeof_FileData"

definition getStats :: "nat \<Rightarrow> nat \<Rightarrow> nat \<Rightarrow> ReferenceGraph \<Rightarrow> GraphStats" where
  "getStats sizeof_Symbol sizeof_Reference sizeof_FileData g =
     \<lparr>totalSymbols = length (symbols g),
      totalReferences = length (references g),
      totalFiles = length (files g),
      memoryUsageBytes = calculateMemoryUsage sizeof_Symbol sizeof_Reference sizeof_FileData g\<rparr>"

text \<open>\<^verbatim>\<open>ReferenceGraph::size()\<close>; the name \<open>size\<close> is taken in HOL.\<close>

definition graph_size :: "ReferenceGraph \<Rightarrow> nat" where
  "graph_size g = length (symbols g)"

definition clear :: "ReferenceGraph \<Rightarrow> ReferenceGraph" where
  "clear g =
     g\<lparr>symbols := [], references := [], symbolToReferences := [], symbolToCallers := [],
       files := [], dirtyFiles := {}\<rparr>"

section \<open>Sequences of public operations\<close>

text \<open>
  The state-changing public member functions, as a datatype of calls; \<open>perform\<close> makes
  one call and \<open>run\<close> a sequence of them. The states of the program are those that
  \<open>run\<close> reaches from \<open>empty_graph\<close>.
\<close>

datatype operation =
    AddSymbol Symbol
  | AddSymbols "Symbol list"
  | AddReference Reference
  | AddReferences "Reference list"
  | RemoveReferences string
  | AddFile FileData
  | UpdateFile string FileData
  | RemoveFile string
  | MarkFileDirty string
  | ClearDirtyFiles
  | Clear

fun perform :: "ReferenceGraph \<Rightarrow> operation \<Rightarrow> ReferenceGraph" where
  "perform g (AddSymbol s) = addSymbol g s"
| "perform g (AddSymbols ss) = addSymbols g ss"
| "perform g (AddReference r) = addReference g r"
| "perform g (AddReferences rs) = addReferences g rs"
| "perform g (RemoveReferences symbolId) = removeReferences g symbolId"
| "perform g (AddFile f) = addFile g f"
| "perform g (UpdateFile filePath f) = updateFile g filePath f"
| "perform g (RemoveFile filePath) = removeFile g filePath"
| "perform g (MarkFileDirty filePath) = markFileDirty g filePath"
| "perform g ClearDirtyFiles = clearDirtyFiles g"
| "perform g Clear = clear g"

definition run :: "ReferenceGraph \<Rightarrow> operation list \<Rightarrow> ReferenceGraph" where
  "run g ops = foldl perform g ops"

section \<open>Views, invariants and usage disciplines\<close>

text \<open>
  The three containers that the reference bookkeeping reads: the reference table as a
  partial map, and the two adjacency vectors of a symbol, empty when the symbol has no
  entry.
\<close>

abbreviation refOf :: "ReferenceGraph \<Rightarrow> string \<Rightarrow> Reference option" where
  "refOf g \<equiv> map_of (references g)"

abbreviation outgoing :: "ReferenceGraph \<Rightarrow> string \<Rightarrow> string list" where
  "outgoing g \<equiv> at_default (symbolToReferences g)"

abbreviation incoming :: "ReferenceGraph \<Rightarrow> string \<Rightarrow> string list" where
  "incoming g \<equiv> at_default (symbolToCallers g)"

text \<open>
  \<open>linked\<close>: every stored reference sits under its own id and its id occurs in the
  outgoing vector of its source and in the incoming vector of its target.
  \<open>tight\<close>: the adjacency vectors hold no id twice, and every id they hold resolves to
  a stored reference with that endpoint. \<open>mirrored\<close> is both.
\<close>

definition linked :: "ReferenceGraph \<Rightarrow> bool" where
  "linked g \<longleftrightarrow>
     (\<forall>k r. refOf g k = Some r \<longrightarrow>
        ref_id r = k \<and> k \<in> set (outgoing g (fromSymbolId r))
        \<and> k \<in> set (incoming g (toSymbolId r)))"

definition tight :: "ReferenceGraph \<Rightarrow> bool" where
  "tight g \<longleftrightarrow>
     (\<forall>s. distinct (outgoing g s)
        \<and> (\<forall>k \<in> set (outgoing g s). \<exists>r. refOf g k = Some r \<and> fromSymbolId r = s))
     \<and> (\<forall>t. distinct (incoming g t)
        \<and> (\<forall>k \<in> set (incoming g t). \<exists>r. refOf g k = Some r \<and> toSymbolId r = t))"

definition mirrored :: "ReferenceGraph \<Rightarrow> bool" where
  "mirrored g \<longleftrightarrow> linked g \<and> tight g"

text \<open>
  \<open>mirrors g r\<close>: the id of \<open>r\<close> appears exactly once in the outgoing vector keyed by
  its source and exactly once in the incoming vector keyed by its target.
\<close>

definition mirrors :: "ReferenceGraph \<Rightarrow> Reference \<Rightarrow> bool" where
  "mirrors g r \<longleftrightarrow>
     count_list (at_default (symbolToReferences g) (fromSymbolId r)) (ref_id r) = 1
     \<and> count_list (at_default (symbolToCallers g) (toSymbolId r)) (ref_id r) = 1"

text \<open>\<open>keyed\<close>: every entry of the symbol table sits under the id of its symbol.\<close>

definition keyed :: "ReferenceGraph \<Rightarrow> bool" where
  "keyed g \<longleftrightarrow> (\<forall>(k, s) \<in> set (symbols g). sym_id s = k)"

text \<open>\<open>distinct_keys\<close>: no container lists a key twice, as in a hash map.\<close>

definition distinct_keys :: "ReferenceGraph \<Rightarrow> bool" where
  "distinct_keys g \<longleftrightarrow>
     distinct (map fst (symbols g)) \<and> distinct (map fst (references g))
     \<and> distinct (map fst (symbolToReferences g)) \<and> distinct (map fst (symbolToCallers g))
     \<and> distinct (map fst (files g))"

text \<open>
  A sequence of calls is \<open>fresh_run\<close> when no \<^verbatim>\<open>addReference\<close>, alone or as an element
  of an \<^verbatim>\<open>addReferences\<close> batch, is given an id that the reference table holds at that
  moment (a reference is removed before its id is added again).
\<close>

fun fresh_batch :: "ReferenceGraph \<Rightarrow> Reference list \<Rightarrow> bool" where
  "fresh_batch g [] = True"
| "fresh_batch g (r # rs) =
     (map_of (references g) (ref_id r) = None \<and> fresh_batch (addReference g r) rs)"

fun fresh_op :: "ReferenceGraph \<Rightarrow> operation \<Rightarrow> bool" where
  "fresh_op g (AddReference r) = (map_of (references g) (ref_id r) = None)"
| "fresh_op g (AddReferences rs) = fresh_batch g rs"
| "fresh_op g opn = True"

fun fresh_run :: "ReferenceGraph \<Rightarrow> operation list \<Rightarrow> bool" where
  "fresh_run g [] = True"
| "fresh_run g (opn # ops) = (fresh_op g opn \<and> fresh_run (perform g opn) ops)"

text \<open>
  \<open>sound\<close> is \<open>tight\<close> without the ban on repeated ids: every id of an adjacency
  vector resolves to a stored reference with that endpoint.
\<close>

definition sound :: "ReferenceGraph \<Rightarrow> bool" where
  "sound g \<longleftrightarrow>
     (\<forall>s. \<forall>k \<in> set (outgoing g s). \<exists>r. refOf g k = Some r \<and> fromSymbolId r = s)
     \<and> (\<forall>t. \<forall>k \<in> set (incoming g t). \<exists>r. refOf g k = Some r \<and> toSymbolId r = t)"

text \<open>
  A sequence of calls is \<open>steady_run\<close> when every \<^verbatim>\<open>addReference\<close>, alone or as an
  element of a batch, is given either an id that the reference table does not hold, or
  the id of a stored reference together with the endpoints that reference has: an id may
  be added again, but a reference is removed before an endpoint of it changes.
\<close>

definition steady_add :: "ReferenceGraph \<Rightarrow> Reference \<Rightarrow> bool" where
  "steady_add g r =
     (case map_of (references g) (ref_id r) of
        None \<Rightarrow> True
      | Some r' \<Rightarrow> fromSymbolId r' = fromSymbolId r \<and> toSymbolId r' = toSymbolId r)"

fun steady_batch :: "ReferenceGraph \<Rightarrow> Reference list \<Rightarrow> bool" where
  "steady_batch g [] = True"
| "steady_batch g (r # rs) = (steady_add g r \<and> steady_batch (addReference g r) rs)"

fun steady_op :: "ReferenceGraph \<Rightarrow> operation \<Rightarrow> bool" where
  "steady_op g (AddReference r) = steady_add g r"
| "steady_op g (AddReferences rs) = steady_batch g rs"
| "steady_op g opn = True"

fun steady_run :: "ReferenceGraph \<Rightarrow> operation list \<Rightarrow> bool" where
  "steady_run g [] = True"
| "steady_run g (opn # ops) = (steady_op g opn \<and> steady_run (perform g opn) ops)"

text \<open>The calls that remove references.\<close>

fun removal :: "operation \<Rightarrow> bool" where
  "removal (RemoveReferences s) = True"
| "removal (RemoveFile p) = True"
| "removal (UpdateFile p f) = True"
| "removal Clear = True"
| "removal opn = False"

section \<open>A concrete project\<close>

text \<open>
  Two symbols of one file, a call from \<^verbatim>\<open>bar\<close> to \<^verbatim>\<open>foo\<close>, a recursive call of
  \<^verbatim>\<open>foo\<close>, and two further references that reuse the id \<^verbatim>\<open>r1\<close>.
\<close>

definition sym_foo :: Symbol where
  "sym_foo = Symbol_default\<lparr>sym_id := ''f1::foo::1'', name := ''foo'', isExported := True\<rparr>"

definition sym_bar :: Symbol where
  "sym_bar = Symbol_default\<lparr>sym_id := ''f1::bar::5''\<rparr>"

definition ref_r1 :: Reference where
  "ref_r1 = \<lparr>ref_id = ''r1'', fromSymbolId = ''f1::bar::5'', toSymbolId = ''f1::foo::1'',
     ref_type = ''direct'', ref_filePath = [], ref_line = 0, ref_column = 0\<rparr>"

definition ref_r1_retyped :: Reference where
  "ref_r1_retyped = ref_r1\<lparr>ref_type := ''method''\<rparr>"

definition ref_r1_moved :: Reference where
  "ref_r1_moved = ref_r1\<lparr>fromSymbolId := ''f2::baz::3'', toSymbolId := ''f1::bar::5''\<rparr>"

definition ref_r2 :: Reference where
  "ref_r2 = \<lparr>ref_id = ''r2'', fromSymbolId = ''f1::foo::1'', toSymbolId = ''f1::foo::1'',
     ref_type = ''direct'', ref_filePath = [], ref_line = 0, ref_column = 0\<rparr>"

definition ref_r3 :: Reference where
  "ref_r3 = ref_r1\<lparr>ref_id := ''r3'', ref_line := 7\<rparr>"

definition file_f1 :: FileData where
  "file_f1 = \<lparr>path = ''f1'', file_symbols = [sym_foo, sym_bar], file_imports = []\<rparr>"

text \<open>
  The id \<^verbatim>\<open>r1\<close> is added twice with different endpoints and removed through its second
  source: the incoming vector of \<^verbatim>\<open>foo\<close> keeps the id of a reference that is gone.
\<close>

definition stale_scenario :: "operation list" where
  "stale_scenario =
     [AddReference ref_r1, AddReference ref_r1_moved, RemoveReferences ''f2::baz::3'']"

text \<open>The project with \<^verbatim>\<open>r1\<close> added a second time, with another type and its endpoints.\<close>

definition steady_scenario :: "operation list" where
  "steady_scenario =
     [AddFile file_f1, AddReference ref_r1, AddReference ref_r1_retyped, AddReferences [ref_r2]]"

definition scenario :: "operation list" where
  "scenario = [AddFile file_f1, AddReference ref_r1, AddReferences [ref_r2]]"

section \<open>Statistics and lookups\<close>

lemma foldl_snoc_map: "foldl (\<lambda>result x. result @ [f x]) acc xs = acc @ map f xs"
  by (induction xs arbitrary: acc) simp_all

lemma getAllSymbols_map: "getAllSymbols g = map snd (symbols g)"
  by (simp add: getAllSymbols_def foldl_snoc_map)

text \<open>
  C9 (stats consistency): in every state \<^verbatim>\<open>getStats().totalSymbols\<close>, \<^verbatim>\<open>size()\<close> and the
  length of \<^verbatim>\<open>getAllSymbols()\<close> are equal, each being the number of entries of the symbol
  table, whatever the three \<^verbatim>\<open>sizeof\<close> constants are.
\<close>

theorem stats_consistency:
  "totalSymbols (getStats a b c g) = graph_size g
   \<and> graph_size g = length (getAllSymbols g)
   \<and> length (getAllSymbols g) = length (symbols g)"
  by (simp add: getStats_def graph_size_def getAllSymbols_map)

text \<open>
  C5 (updateFile equivalence): for every state, path and file, \<^verbatim>\<open>updateFile(path, file)\<close>
  leaves the graph in exactly the state that \<^verbatim>\<open>removeFile(path)\<close> followed by
  \<^verbatim>\<open>addFile(file)\<close> produces.
\<close>

theorem updateFile_equivalence:
  "updateFile g filePath file = addFile (removeFile g filePath) file
   \<and> perform g (UpdateFile filePath file) = run g [RemoveFile filePath, AddFile file]"
  by (simp add: updateFile_def run_def)

section \<open>The reference bookkeeping\<close>

lemma at_default_update:
  "at_default (AList.update k v m) k' = (if k' = k then v else at_default m k')"
  by (simp add: at_default_def update_conv')

lemma at_default_delete:
  "at_default (AList.delete k m) k' = (if k' = k then [] else at_default m k')"
  by (simp add: at_default_def delete_conv')

lemma at_default_None: "map_of m k = None \<Longrightarrow> at_default m k = []"
  by (simp add: at_default_def)

lemma at_default_Some: "map_of m k = Some l \<Longrightarrow> at_default m k = l"
  by (simp add: at_default_def)

subsection \<open>Closed forms of removeReferences\<close>

lemma rr_body_refOf:
  "refOf (removeReferences_body g i) k = (if k = i then None else refOf g k)"
  by (simp add: removeReferences_body_def delete_conv' split: option.splits)

lemma rr_body_frame:
  "symbolToReferences (removeReferences_body g i) = symbolToReferences g"
  "symbols (removeReferences_body g i) = symbols g"
  "files (removeReferences_body g i) = files g"
  "dirtyFiles (removeReferences_body g i) = dirtyFiles g"
  by (simp_all add: removeReferences_body_def split: option.splits)

lemma rr_body_incoming:
  "incoming (removeReferences_body g i) t =
     filter (\<lambda>k. \<not> (k = i \<and> (\<exists>r. refOf g k = Some r \<and> toSymbolId r = t))) (incoming g t)"
proof (cases "refOf g i")
  case None
  then show ?thesis by (simp add: removeReferences_body_def)
next
  case (Some r)
  show ?thesis
  proof (cases "toSymbolId r = t")
    case True
    with Some show ?thesis
      by (simp add: removeReferences_body_def at_default_update removeAll_filter_not_eq)
        (metis)
  next
    case False
    with Some show ?thesis
      by (simp add: removeReferences_body_def at_default_update)
  qed
qed

lemma rr_loop_refOf:
  "refOf (foldl removeReferences_body g ids) k = (if k \<in> set ids then None else refOf g k)"
  by (induction ids arbitrary: g) (simp_all add: rr_body_refOf)

lemma rr_loop_frame:
  "symbolToReferences (foldl removeReferences_body g ids) = symbolToReferences g"
  "symbols (foldl removeReferences_body g ids) = symbols g"
  "files (foldl removeReferences_body g ids) = files g"
  "dirtyFiles (foldl removeReferences_body g ids) = dirtyFiles g"
  by (induction ids arbitrary: g) (simp_all add: rr_body_frame)

lemma rr_loop_incoming:
  "incoming (foldl removeReferences_body g ids) t =
     filter (\<lambda>k. \<not> (k \<in> set ids \<and> (\<exists>r. refOf g k = Some r \<and> toSymbolId r = t))) (incoming g t)"
proof (induction ids arbitrary: g)
  case Nil
  show ?case by simp
next
  case (Cons i ids)
  show ?case
    by (simp add: Cons.IH rr_body_incoming rr_body_refOf) (rule filter_cong; auto)
qed

lemma removeReferences_refOf:
  "refOf (removeReferences g s) k = (if k \<in> set (outgoing g s) then None else refOf g k)"
  by (simp add: removeReferences_def Let_def at_default_def rr_loop_refOf split: option.splits)

lemma removeReferences_outgoing:
  "outgoing (removeReferences g s) s' = (if s' = s then [] else outgoing g s')"
  by (auto simp add: removeReferences_def Let_def rr_loop_frame at_default_delete at_default_None
      split: option.splits)

lemma removeReferences_incoming:
  "incoming (removeReferences g s) t =
     filter (\<lambda>k. \<not> (k \<in> set (outgoing g s) \<and> (\<exists>r. refOf g k = Some r \<and> toSymbolId r = t)))
       (incoming g t)"
  by (simp add: removeReferences_def Let_def rr_loop_incoming at_default_None at_default_Some
      split: option.splits)

lemma removeReferences_frame:
  "symbols (removeReferences g s) = symbols g"
  "files (removeReferences g s) = files g"
  "dirtyFiles (removeReferences g s) = dirtyFiles g"
  by (simp_all add: removeReferences_def Let_def rr_loop_frame split: option.splits)

subsection \<open>Closed forms of the incoming purge of removeFile\<close>

lemma rf_body_refOf:
  "refOf (removeFile_body g i) k = (if k = i then None else refOf g k)"
  by (simp add: removeFile_body_def delete_conv' split: option.splits)

lemma rf_body_frame:
  "symbolToCallers (removeFile_body g i) = symbolToCallers g"
  "symbols (removeFile_body g i) = symbols g"
  "files (removeFile_body g i) = files g"
  "dirtyFiles (removeFile_body g i) = dirtyFiles g"
  by (simp_all add: removeFile_body_def split: option.splits)

lemma rf_body_outgoing:
  "outgoing (removeFile_body g i) s =
     filter (\<lambda>k. \<not> (k = i \<and> (\<exists>r. refOf g k = Some r \<and> fromSymbolId r = s))) (outgoing g s)"
proof (cases "refOf g i")
  case None
  then show ?thesis by (simp add: removeFile_body_def)
next
  case (Some r)
  show ?thesis
  proof (cases "fromSymbolId r = s")
    case True
    with Some show ?thesis
      by (simp add: removeFile_body_def at_default_update removeAll_filter_not_eq)
        (metis)
  next
    case False
    with Some show ?thesis
      by (simp add: removeFile_body_def at_default_update)
  qed
qed

lemma rf_loop_refOf:
  "refOf (foldl removeFile_body g ids) k = (if k \<in> set ids then None else refOf g k)"
  by (induction ids arbitrary: g) (simp_all add: rf_body_refOf)

lemma rf_loop_frame:
  "symbolToCallers (foldl removeFile_body g ids) = symbolToCallers g"
  "symbols (foldl removeFile_body g ids) = symbols g"
  "files (foldl removeFile_body g ids) = files g"
  "dirtyFiles (foldl removeFile_body g ids) = dirtyFiles g"
  by (induction ids arbitrary: g) (simp_all add: rf_body_frame)

lemma rf_loop_outgoing:
  "outgoing (foldl removeFile_body g ids) s =
     filter (\<lambda>k. \<not> (k \<in> set ids \<and> (\<exists>r. refOf g k = Some r \<and> fromSymbolId r = s))) (outgoing g s)"
proof (induction ids arbitrary: g)
  case Nil
  show ?case by simp
next
  case (Cons i ids)
  show ?case
    by (simp add: Cons.IH rf_body_outgoing rf_body_refOf) (rule filter_cong; auto)
qed

lemma removeCallers_refOf:
  "refOf (removeCallers g t) k = (if k \<in> set (incoming g t) then None else refOf g k)"
  by (simp add: removeCallers_def Let_def at_default_def rf_loop_refOf split: option.splits)

lemma removeCallers_incoming:
  "incoming (removeCallers g t) t' = (if t' = t then [] else incoming g t')"
  by (auto simp add: removeCallers_def Let_def rf_loop_frame at_default_delete at_default_None
      split: option.splits)

lemma removeCallers_outgoing:
  "outgoing (removeCallers g t) s =
     filter (\<lambda>k. \<not> (k \<in> set (incoming g t) \<and> (\<exists>r. refOf g k = Some r \<and> fromSymbolId r = s)))
       (outgoing g s)"
  by (simp add: removeCallers_def Let_def rf_loop_outgoing at_default_None at_default_Some
      split: option.splits)

lemma removeCallers_frame:
  "symbols (removeCallers g t) = symbols g"
  "files (removeCallers g t) = files g"
  "dirtyFiles (removeCallers g t) = dirtyFiles g"
  by (simp_all add: removeCallers_def Let_def rf_loop_frame split: option.splits)

subsection \<open>Closed forms of addReference\<close>

lemma addReference_refOf:
  "refOf (addReference g r) k = (if k = ref_id r then Some r else refOf g k)"
  by (simp add: addReference_def Let_def update_conv')

lemma addReference_outgoing:
  "outgoing (addReference g r) s =
     (if s = fromSymbolId r then outgoing g s @ [ref_id r] else outgoing g s)"
  by (simp add: addReference_def Let_def at_default_update)

lemma addReference_incoming:
  "incoming (addReference g r) t =
     (if t = toSymbolId r then incoming g t @ [ref_id r] else incoming g t)"
  by (simp add: addReference_def Let_def at_default_update)

lemma addReference_frame:
  "symbols (addReference g r) = symbols g"
  "files (addReference g r) = files g"
  "dirtyFiles (addReference g r) = dirtyFiles g"
  by (simp_all add: addReference_def Let_def)

subsection \<open>Operations that leave the references alone\<close>

lemma addSymbols_frame:
  "references (addSymbols g ss) = references g"
  "symbolToReferences (addSymbols g ss) = symbolToReferences g"
  "symbolToCallers (addSymbols g ss) = symbolToCallers g"
  "files (addSymbols g ss) = files g"
  "dirtyFiles (addSymbols g ss) = dirtyFiles g"
  unfolding addSymbols_def
  by (induction ss arbitrary: g) (simp_all add: addSymbol_def)

lemma addFile_frame:
  "references (addFile g f) = references g"
  "symbolToReferences (addFile g f) = symbolToReferences g"
  "symbolToCallers (addFile g f) = symbolToCallers g"
  "dirtyFiles (addFile g f) = dirtyFiles g"
  by (simp_all add: addFile_def addSymbols_frame)

lemma addFile_files: "files (addFile g f) = AList.update (path f) f (files g)"
  by (simp add: addFile_def addSymbols_frame)

subsection \<open>One symbol of a removed file\<close>

lemma removeFile_symbol_refOf:
  "refOf (removeFile_symbol g sy) k =
     (if k \<in> set (outgoing g (sym_id sy)) \<or> k \<in> set (incoming g (sym_id sy)) then None
      else refOf g k)"
  by (auto simp add: removeFile_symbol_def Let_def removeCallers_refOf removeReferences_refOf
      removeReferences_incoming)

subsection \<open>The invariants through every operation\<close>

lemma linked_frame:
  assumes "references g' = references g" "symbolToReferences g' = symbolToReferences g"
    "symbolToCallers g' = symbolToCallers g"
  shows "linked g' = linked g"
  by (simp add: linked_def assms)

lemma tight_frame:
  assumes "references g' = references g" "symbolToReferences g' = symbolToReferences g"
    "symbolToCallers g' = symbolToCallers g"
  shows "tight g' = tight g"
  by (simp add: tight_def assms)

lemma linked_update [simp]:
  "linked (g\<lparr>symbols := x\<rparr>) = linked g"
  "linked (g\<lparr>files := y\<rparr>) = linked g"
  "linked (g\<lparr>dirtyFiles := z\<rparr>) = linked g"
  by (simp_all add: linked_def)

lemma tight_update [simp]:
  "tight (g\<lparr>symbols := x\<rparr>) = tight g"
  "tight (g\<lparr>files := y\<rparr>) = tight g"
  "tight (g\<lparr>dirtyFiles := z\<rparr>) = tight g"
  by (simp_all add: tight_def)

lemma linked_empty: "linked empty_graph"
  by (simp add: linked_def empty_graph_def)

lemma tight_empty: "tight empty_graph"
  by (simp add: tight_def empty_graph_def at_default_def)

lemma linkedD:
  assumes "linked g" "refOf g k = Some r"
  shows "ref_id r = k" "k \<in> set (outgoing g (fromSymbolId r))"
    "k \<in> set (incoming g (toSymbolId r))"
  using assms by (simp_all add: linked_def)

lemma tight_outD:
  assumes "tight g" "k \<in> set (outgoing g s)"
  shows "\<exists>r. refOf g k = Some r \<and> fromSymbolId r = s"
  using assms by (simp add: tight_def)

lemma tight_incD:
  assumes "tight g" "k \<in> set (incoming g t)"
  shows "\<exists>r. refOf g k = Some r \<and> toSymbolId r = t"
  using assms by (simp add: tight_def)

lemma tight_distinct:
  assumes "tight g"
  shows "distinct (outgoing g s)" "distinct (incoming g t)"
  using assms by (simp_all add: tight_def)

lemma linked_addReference:
  assumes "linked g"
  shows "linked (addReference g r)"
  unfolding linked_def
proof (intro allI impI)
  fix k r'
  assume h: "refOf (addReference g r) k = Some r'"
  show "ref_id r' = k \<and> k \<in> set (outgoing (addReference g r) (fromSymbolId r'))
        \<and> k \<in> set (incoming (addReference g r) (toSymbolId r'))"
  proof (cases "k = ref_id r")
    case True
    with h have "r' = r" by (simp add: addReference_refOf)
    with True show ?thesis by (simp add: addReference_outgoing addReference_incoming)
  next
    case False
    with h have "refOf g k = Some r'" by (simp add: addReference_refOf)
    from linkedD[OF assms this] show ?thesis
      by (auto simp add: addReference_outgoing addReference_incoming)
  qed
qed

lemma tight_addReference:
  assumes "tight g" "refOf g (ref_id r) = None"
  shows "tight (addReference g r)"
proof -
  have out: "ref_id r \<notin> set (outgoing g s)" for s
    using tight_outD[OF assms(1), of "ref_id r" s] assms(2) by auto
  have inc: "ref_id r \<notin> set (incoming g t)" for t
    using tight_incD[OF assms(1), of "ref_id r" t] assms(2) by auto
  have "distinct (outgoing (addReference g r) s)" for s
    using tight_distinct(1)[OF assms(1), of s] out[of s] by (auto simp add: addReference_outgoing)
  moreover have "distinct (incoming (addReference g r) t)" for t
    using tight_distinct(2)[OF assms(1), of t] inc[of t] by (auto simp add: addReference_incoming)
  moreover have "\<exists>r'. refOf (addReference g r) k = Some r' \<and> fromSymbolId r' = s"
    if "k \<in> set (outgoing (addReference g r) s)" for k s
  proof (cases "k = ref_id r")
    case True
    with that out[of s] show ?thesis
      by (auto simp add: addReference_outgoing addReference_refOf split: if_splits)
  next
    case False
    with that have "k \<in> set (outgoing g s)"
      by (auto simp add: addReference_outgoing split: if_splits)
    from tight_outD[OF assms(1) this] False show ?thesis
      by (simp add: addReference_refOf)
  qed
  moreover have "\<exists>r'. refOf (addReference g r) k = Some r' \<and> toSymbolId r' = t"
    if "k \<in> set (incoming (addReference g r) t)" for k t
  proof (cases "k = ref_id r")
    case True
    with that inc[of t] show ?thesis
      by (auto simp add: addReference_incoming addReference_refOf split: if_splits)
  next
    case False
    with that have "k \<in> set (incoming g t)"
      by (auto simp add: addReference_incoming split: if_splits)
    from tight_incD[OF assms(1) this] False show ?thesis
      by (simp add: addReference_refOf)
  qed
  ultimately show ?thesis
    unfolding tight_def by blast
qed

lemma linked_removeReferences:
  assumes "linked g"
  shows "linked (removeReferences g s)"
  unfolding linked_def
proof (intro allI impI)
  fix k r
  assume "refOf (removeReferences g s) k = Some r"
  then have k: "k \<notin> set (outgoing g s)" and r: "refOf g k = Some r"
    by (simp_all add: removeReferences_refOf split: if_splits)
  note l = linkedD[OF assms r]
  from k l(2) have "fromSymbolId r \<noteq> s" by auto
  with k l show "ref_id r = k \<and> k \<in> set (outgoing (removeReferences g s) (fromSymbolId r))
        \<and> k \<in> set (incoming (removeReferences g s) (toSymbolId r))"
    by (simp add: removeReferences_outgoing removeReferences_incoming)
qed

lemma tight_removeReferences:
  assumes "tight g"
  shows "tight (removeReferences g s)"
proof -
  have "distinct (outgoing (removeReferences g s) s')" for s'
    using tight_distinct(1)[OF assms, of s'] by (simp add: removeReferences_outgoing)
  moreover have "distinct (incoming (removeReferences g s) t)" for t
    using tight_distinct(2)[OF assms, of t] by (simp add: removeReferences_incoming)
  moreover have "\<exists>r. refOf (removeReferences g s) k = Some r \<and> fromSymbolId r = s'"
    if "k \<in> set (outgoing (removeReferences g s) s')" for k s'
  proof -
    from that have ne: "s' \<noteq> s" and k: "k \<in> set (outgoing g s')"
      by (auto simp add: removeReferences_outgoing split: if_splits)
    from tight_outD[OF assms k] obtain r where r: "refOf g k = Some r" "fromSymbolId r = s'"
      by blast
    have "k \<notin> set (outgoing g s)"
      using tight_outD[OF assms, of k s] r ne by auto
    with r show ?thesis by (simp add: removeReferences_refOf)
  qed
  moreover have "\<exists>r. refOf (removeReferences g s) k = Some r \<and> toSymbolId r = t"
    if "k \<in> set (incoming (removeReferences g s) t)" for k t
  proof -
    from that have k: "k \<in> set (incoming g t)"
      and n: "\<not> (k \<in> set (outgoing g s) \<and> (\<exists>r. refOf g k = Some r \<and> toSymbolId r = t))"
      by (simp_all add: removeReferences_incoming)
    from tight_incD[OF assms k] obtain r where r: "refOf g k = Some r" "toSymbolId r = t"
      by blast
    with n have "k \<notin> set (outgoing g s)" by blast
    with r show ?thesis by (simp add: removeReferences_refOf)
  qed
  ultimately show ?thesis
    unfolding tight_def by blast
qed

lemma linked_removeCallers:
  assumes "linked g"
  shows "linked (removeCallers g t)"
  unfolding linked_def
proof (intro allI impI)
  fix k r
  assume "refOf (removeCallers g t) k = Some r"
  then have k: "k \<notin> set (incoming g t)" and r: "refOf g k = Some r"
    by (simp_all add: removeCallers_refOf split: if_splits)
  note l = linkedD[OF assms r]
  from k l(3) have "toSymbolId r \<noteq> t" by auto
  with k l show "ref_id r = k \<and> k \<in> set (outgoing (removeCallers g t) (fromSymbolId r))
        \<and> k \<in> set (incoming (removeCallers g t) (toSymbolId r))"
    by (simp add: removeCallers_outgoing removeCallers_incoming)
qed

lemma tight_removeCallers:
  assumes "tight g"
  shows "tight (removeCallers g t)"
proof -
  have "distinct (outgoing (removeCallers g t) s)" for s
    using tight_distinct(1)[OF assms, of s] by (simp add: removeCallers_outgoing)
  moreover have "distinct (incoming (removeCallers g t) t')" for t'
    using tight_distinct(2)[OF assms, of t'] by (simp add: removeCallers_incoming)
  moreover have "\<exists>r. refOf (removeCallers g t) k = Some r \<and> toSymbolId r = t'"
    if "k \<in> set (incoming (removeCallers g t) t')" for k t'
  proof -
    from that have ne: "t' \<noteq> t" and k: "k \<in> set (incoming g t')"
      by (auto simp add: removeCallers_incoming split: if_splits)
    from tight_incD[OF assms k] obtain r where r: "refOf g k = Some r" "toSymbolId r = t'"
      by blast
    have "k \<notin> set (incoming g t)"
      using tight_incD[OF assms, of k t] r ne by auto
    with r show ?thesis by (simp add: removeCallers_refOf)
  qed
  moreover have "\<exists>r. refOf (removeCallers g t) k = Some r \<and> fromSymbolId r = s"
    if "k \<in> set (outgoing (removeCallers g t) s)" for k s
  proof -
    from that have k: "k \<in> set (outgoing g s)"
      and n: "\<not> (k \<in> set (incoming g t) \<and> (\<exists>r. refOf g k = Some r \<and> fromSymbolId r = s))"
      by (simp_all add: removeCallers_outgoing)
    from tight_outD[OF assms k] obtain r where r: "refOf g k = Some r" "fromSymbolId r = s"
      by blast
    with n have "k \<notin> set (incoming g t)" by blast
    with r show ?thesis by (simp add: removeCallers_refOf)
  qed
  ultimately show ?thesis
    unfolding tight_def by blast
qed

lemma linked_removeFile_symbol: "linked g \<Longrightarrow> linked (removeFile_symbol g sy)"
  by (simp add: removeFile_symbol_def Let_def linked_removeCallers linked_removeReferences)

lemma tight_removeFile_symbol: "tight g \<Longrightarrow> tight (removeFile_symbol g sy)"
  by (simp add: removeFile_symbol_def Let_def tight_removeCallers tight_removeReferences)

lemma linked_foldl:
  assumes "\<And>g x. linked g \<Longrightarrow> linked (f g x)"
  shows "linked g \<Longrightarrow> linked (foldl f g xs)"
  by (induction xs arbitrary: g) (simp_all add: assms)

lemma tight_foldl:
  assumes "\<And>g x. tight g \<Longrightarrow> tight (f g x)"
  shows "tight g \<Longrightarrow> tight (foldl f g xs)"
  by (induction xs arbitrary: g) (simp_all add: assms)

lemma linked_removeFile: "linked g \<Longrightarrow> linked (removeFile g p)"
  by (simp add: removeFile_def Let_def linked_foldl linked_removeFile_symbol split: option.splits)

lemma tight_removeFile: "tight g \<Longrightarrow> tight (removeFile g p)"
  by (simp add: removeFile_def Let_def tight_foldl tight_removeFile_symbol split: option.splits)

lemma linked_addFile: "linked g \<Longrightarrow> linked (addFile g f)"
  by (simp add: linked_frame[of "addFile g f" g] addFile_frame)

lemma tight_addFile: "tight g \<Longrightarrow> tight (addFile g f)"
  by (simp add: tight_frame[of "addFile g f" g] addFile_frame)

lemma linked_clear: "linked (clear g)"
  by (simp add: linked_def clear_def)

lemma tight_clear: "tight (clear g)"
  by (simp add: tight_def clear_def at_default_def)

lemma linked_perform: "linked g \<Longrightarrow> linked (perform g opn)"
proof (cases opn)
  case (AddSymbol s)
  assume "linked g" then show ?thesis
    by (simp add: AddSymbol addSymbol_def)
next
  case (AddSymbols ss)
  assume "linked g" then show ?thesis
    by (simp add: AddSymbols linked_frame[of "addSymbols g ss" g] addSymbols_frame)
next
  case (AddReference r)
  assume "linked g" then show ?thesis
    by (simp add: AddReference linked_addReference)
next
  case (AddReferences rs)
  assume "linked g" then show ?thesis
    by (simp add: AddReferences addReferences_def linked_foldl linked_addReference)
next
  case (RemoveReferences s)
  assume "linked g" then show ?thesis
    by (simp add: RemoveReferences linked_removeReferences)
next
  case (AddFile f)
  assume "linked g" then show ?thesis
    by (simp add: AddFile linked_addFile)
next
  case (UpdateFile p f)
  assume "linked g" then show ?thesis
    by (simp add: UpdateFile updateFile_def linked_addFile linked_removeFile)
next
  case (RemoveFile p)
  assume "linked g" then show ?thesis
    by (simp add: RemoveFile linked_removeFile)
next
  case (MarkFileDirty p)
  assume "linked g" then show ?thesis
    by (simp add: MarkFileDirty markFileDirty_def)
next
  case ClearDirtyFiles
  assume "linked g" then show ?thesis
    by (simp add: ClearDirtyFiles clearDirtyFiles_def)
next
  case Clear
  then show ?thesis by (simp add: linked_clear)
qed

lemma linked_run: "linked g \<Longrightarrow> linked (run g ops)"
  unfolding run_def by (rule linked_foldl) (rule linked_perform)

lemma addReferences_as_calls: "addReferences g rs = run g (map AddReference rs)"
  unfolding addReferences_def run_def
  by (induction rs arbitrary: g) simp_all

lemma linked_reachable: "linked (run empty_graph ops)"
  by (rule linked_run) (rule linked_empty)

lemma mirrored_batch:
  "mirrored g \<Longrightarrow> fresh_batch g rs \<Longrightarrow> mirrored (foldl addReference g rs)"
  by (induction rs arbitrary: g)
    (simp_all add: mirrored_def linked_addReference tight_addReference)

lemma tight_perform: "linked g \<Longrightarrow> tight g \<Longrightarrow> fresh_op g opn \<Longrightarrow> tight (perform g opn)"
proof (cases opn)
  case (AddSymbol s)
  assume "tight g" then show ?thesis
    by (simp add: AddSymbol addSymbol_def)
next
  case (AddSymbols ss)
  assume "tight g" then show ?thesis
    by (simp add: AddSymbols tight_frame[of "addSymbols g ss" g] addSymbols_frame)
next
  case (AddReference r)
  assume "tight g" "fresh_op g opn" then show ?thesis
    by (simp add: AddReference tight_addReference)
next
  case (AddReferences rs)
  assume "linked g" "tight g" "fresh_op g opn" then show ?thesis
    using mirrored_batch[of g rs] by (simp add: AddReferences addReferences_def mirrored_def)
next
  case (RemoveReferences s)
  assume "tight g" then show ?thesis
    by (simp add: RemoveReferences tight_removeReferences)
next
  case (AddFile f)
  assume "tight g" then show ?thesis
    by (simp add: AddFile tight_addFile)
next
  case (UpdateFile p f)
  assume "tight g" then show ?thesis
    by (simp add: UpdateFile updateFile_def tight_addFile tight_removeFile)
next
  case (RemoveFile p)
  assume "tight g" then show ?thesis
    by (simp add: RemoveFile tight_removeFile)
next
  case (MarkFileDirty p)
  assume "tight g" then show ?thesis
    by (simp add: MarkFileDirty markFileDirty_def)
next
  case ClearDirtyFiles
  assume "tight g" then show ?thesis
    by (simp add: ClearDirtyFiles clearDirtyFiles_def)
next
  case Clear
  then show ?thesis by (simp add: tight_clear)
qed

lemma mirrored_run: "mirrored g \<Longrightarrow> fresh_run g ops \<Longrightarrow> mirrored (run g ops)"
  unfolding run_def
  by (induction ops arbitrary: g)
    (simp_all add: mirrored_def linked_perform tight_perform)

lemma mirrored_reachable: "fresh_run empty_graph ops \<Longrightarrow> mirrored (run empty_graph ops)"
  by (rule mirrored_run) (simp_all add: mirrored_def linked_empty tight_empty)

subsection \<open>findCallers and findCallees as filters\<close>

lemma foldl_resolve:
  "foldl (resolve g) acc ids = acc @ List.map_filter (refOf g) ids"
  by (induction ids arbitrary: acc) (simp_all add: resolve_def split: option.splits)

lemma findCallers_map_filter:
  "findCallers g t = List.map_filter (refOf g) (incoming g t)"
  by (simp add: findCallers_def at_default_def foldl_resolve split: option.splits)

lemma findCallees_map_filter:
  "findCallees g s = List.map_filter (refOf g) (outgoing g s)"
  by (simp add: findCallees_def at_default_def foldl_resolve split: option.splits)

lemma set_map_filter: "set (List.map_filter f xs) = {y. \<exists>x \<in> set xs. f x = Some y}"
  by (induction xs) (auto split: option.splits)




subsection \<open>The symbol table\<close>

lemma set_update_subset: "set (AList.update k v al) \<subseteq> insert (k, v) (set al)"
  by (induction al) auto

lemma set_delete_subset: "set (AList.delete k al) \<subseteq> set al"
  by (auto simp add: AList.delete_eq)

lemma keyed_update [simp]:
  "keyed (g\<lparr>references := x\<rparr>) = keyed g"
  "keyed (g\<lparr>files := y\<rparr>) = keyed g"
  "keyed (g\<lparr>dirtyFiles := z\<rparr>) = keyed g"
  "keyed (g\<lparr>symbolToReferences := u\<rparr>) = keyed g"
  "keyed (g\<lparr>symbolToCallers := w\<rparr>) = keyed g"
  by (simp_all add: keyed_def)

lemma keyed_symbols: "symbols g' = symbols g \<Longrightarrow> keyed g' = keyed g"
  by (simp add: keyed_def)

lemma keyed_addSymbol: "keyed g \<Longrightarrow> keyed (addSymbol g s)"
  using set_update_subset[of "sym_id s" s "symbols g"]
  by (auto simp add: keyed_def addSymbol_def)

lemma keyed_foldl:
  assumes "\<And>g x. keyed g \<Longrightarrow> keyed (f g x)"
  shows "keyed g \<Longrightarrow> keyed (foldl f g xs)"
  by (induction xs arbitrary: g) (simp_all add: assms)

lemma keyed_addFile: "keyed g \<Longrightarrow> keyed (addFile g f)"
  by (simp add: addFile_def addSymbols_def keyed_foldl keyed_addSymbol)

lemma keyed_removeFile_symbol: "keyed g \<Longrightarrow> keyed (removeFile_symbol g sy)"
  using set_delete_subset[of "sym_id sy" "symbols g"]
  by (auto simp add: keyed_def removeFile_symbol_def Let_def removeCallers_frame
      removeReferences_frame)

lemma keyed_removeFile: "keyed g \<Longrightarrow> keyed (removeFile g p)"
  by (simp add: removeFile_def Let_def keyed_foldl keyed_removeFile_symbol split: option.splits)

lemma keyed_perform: "keyed g \<Longrightarrow> keyed (perform g opn)"
proof (cases opn)
  case (AddReference r)
  assume "keyed g" then show ?thesis
    by (simp add: AddReference keyed_symbols[of "addReference g r" g] addReference_frame)
next
  case (AddReferences rs)
  have "symbols (foldl addReference h rs) = symbols h" for h
    by (induction rs arbitrary: h) (simp_all add: addReference_frame)
  moreover assume "keyed g"
  ultimately show ?thesis
    by (simp add: AddReferences addReferences_def keyed_symbols[of "foldl addReference g rs" g])
next
  case (RemoveReferences s)
  assume "keyed g" then show ?thesis
    by (simp add: RemoveReferences keyed_symbols[of "removeReferences g s" g]
        removeReferences_frame)
next
  case (UpdateFile p f)
  assume "keyed g" then show ?thesis
    by (simp add: UpdateFile updateFile_def keyed_addFile keyed_removeFile)
next
  case Clear
  show ?thesis by (simp add: Clear clear_def keyed_def)
qed (simp_all add: keyed_addSymbol addSymbols_def keyed_foldl keyed_addFile keyed_removeFile
    markFileDirty_def clearDirtyFiles_def)

lemma keyed_empty: "keyed empty_graph"
  by (simp add: keyed_def empty_graph_def)

lemma keyed_reachable: "keyed (run empty_graph ops)"
  unfolding run_def
  by (rule keyed_foldl[OF keyed_perform keyed_empty])

lemma foldl_snoc_filter:
  "foldl (\<lambda>acc x. if P x then acc @ [f x] else acc) acc xs = acc @ map f (filter P xs)"
  by (induction xs arbitrary: acc) simp_all

lemma findUnusedSymbols_filter:
  "findUnusedSymbols g = map snd (filter (\<lambda>pair. \<not> isSymbolUsed g (fst pair)) (symbols g))"
  by (simp add: findUnusedSymbols_def foldl_snoc_filter)

text \<open>
  C7 (used/unused partition): in every state reached by public operations, for every
  symbol \<open>s\<close> present in the symbol table, exactly one of \<^verbatim>\<open>isSymbolUsed(s.id)\<close> and
  \<open>s \<in> findUnusedSymbols()\<close> holds.
\<close>

theorem used_unused_partition:
  assumes "g = run empty_graph ops" and "s \<in> set (getAllSymbols g)"
  shows "isSymbolUsed g (sym_id s) \<noteq> (s \<in> set (findUnusedSymbols g))"
proof -
  have k: "keyed g" using assms(1) by (simp add: keyed_reachable)
  from assms(2) obtain i where i: "(i, s) \<in> set (symbols g)"
    by (auto simp add: getAllSymbols_map)
  have key: "sym_id s' = i'" if "(i', s') \<in> set (symbols g)" for i' s'
    using k that by (auto simp add: keyed_def)
  show ?thesis
  proof (cases "isSymbolUsed g (sym_id s)")
    case True
    have "s \<notin> set (findUnusedSymbols g)"
      using True key by (auto simp add: findUnusedSymbols_filter)
    with True show ?thesis by simp
  next
    case False
    with i key[OF i] have "s \<in> set (findUnusedSymbols g)"
      by (force simp add: findUnusedSymbols_filter)
    with False show ?thesis by simp
  qed
qed

subsection \<open>Mirroring and cascading removal\<close>

lemma count_list_distinct: "distinct xs \<Longrightarrow> x \<in> set xs \<Longrightarrow> count_list xs x = 1"
  by (induction xs) auto

text \<open>
  C1 (bidirectional mirroring, amended): in every state reached by a sequence of public
  operations that never adds a reference under an id present in the reference table,
  every reference \<open>r\<close> of the table is stored under \<open>r.id\<close>, and \<open>r.id\<close> appears exactly
  once in the outgoing vector keyed by \<open>r.fromSymbolId\<close> and exactly once in the incoming
  vector keyed by \<open>r.toSymbolId\<close>.
\<close>

theorem mirroring_invariant:
  assumes "fresh_run empty_graph ops" and "g = run empty_graph ops"
    and "map_of (references g) k = Some r"
  shows "ref_id r = k \<and> mirrors g r"
proof -
  from assms(1,2) have m: "linked g" "tight g"
    using mirrored_reachable[of ops] by (simp_all add: mirrored_def)
  note l = linkedD[OF m(1) assms(3)]
  from l show ?thesis
    by (simp add: mirrors_def count_list_distinct tight_distinct[OF m(2)])
qed

lemma removeFile_symbol_mono:
  "refOf (removeFile_symbol g sy) k = Some r \<Longrightarrow> refOf g k = Some r"
  by (simp add: removeFile_symbol_refOf split: if_splits)

lemma removeFile_symbol_excised:
  assumes "linked g" "refOf (removeFile_symbol g sy) k = Some r"
  shows "fromSymbolId r \<noteq> sym_id sy \<and> toSymbolId r \<noteq> sym_id sy"
proof -
  from assms(2) have k: "k \<notin> set (outgoing g (sym_id sy))" "k \<notin> set (incoming g (sym_id sy))"
    and r: "refOf g k = Some r"
    by (simp_all add: removeFile_symbol_refOf split: if_splits)
  from linkedD(2,3)[OF assms(1) r] k show ?thesis by auto
qed

lemma removeFile_loop_excised:
  assumes "linked g" "refOf (foldl removeFile_symbol g syms) k = Some r"
  shows "refOf g k = Some r
         \<and> (\<forall>sy \<in> set syms. fromSymbolId r \<noteq> sym_id sy \<and> toSymbolId r \<noteq> sym_id sy)"
  using assms
proof (induction syms arbitrary: g)
  case Nil
  then show ?case by simp
next
  case (Cons sy syms)
  let ?g1 = "removeFile_symbol g sy"
  have l1: "linked ?g1" using Cons.prems(1) by (rule linked_removeFile_symbol)
  from Cons.prems(2) have "refOf (foldl removeFile_symbol ?g1 syms) k = Some r" by simp
  from Cons.IH[OF l1 this]
  have r1: "refOf ?g1 k = Some r"
    and rest: "\<forall>sy \<in> set syms. fromSymbolId r \<noteq> sym_id sy \<and> toSymbolId r \<noteq> sym_id sy"
    by simp_all
  from removeFile_symbol_mono[OF r1] removeFile_symbol_excised[OF Cons.prems(1) r1] rest
  show ?case by simp
qed

lemma removeFile_symbol_symbols:
  "map_of (symbols (removeFile_symbol g sy)) i =
     (if i = sym_id sy then None else map_of (symbols g) i)"
  by (simp add: removeFile_symbol_def Let_def removeCallers_frame removeReferences_frame
      delete_conv')

lemma removeFile_loop_symbols:
  "map_of (symbols (foldl removeFile_symbol g syms)) i =
     (if i \<in> sym_id ` set syms then None else map_of (symbols g) i)"
  by (induction syms arbitrary: g) (simp_all add: removeFile_symbol_symbols)

lemma findCallers_stored: "r \<in> set (findCallers g x) \<Longrightarrow> \<exists>k. refOf g k = Some r"
  by (auto simp add: findCallers_map_filter set_map_filter)

lemma findCallees_stored: "r \<in> set (findCallees g x) \<Longrightarrow> \<exists>k. refOf g k = Some r"
  by (auto simp add: findCallees_map_filter set_map_filter)

text \<open>
  C2 (cascading delete completeness): in every state reached by public operations, after
  \<^verbatim>\<open>addFile(f)\<close> followed by \<^verbatim>\<open>removeFile(f.path)\<close>, for every symbol \<open>s\<close> of
  \<open>f.symbols\<close>, \<^verbatim>\<open>hasSymbol(s.id)\<close> is false and no reference with \<open>s.id\<close> as its source
  or its target is in the result of \<^verbatim>\<open>findCallers(x)\<close> or \<^verbatim>\<open>findCallees(x)\<close>, for
  every symbol id \<open>x\<close>.
\<close>

theorem cascading_delete:
  assumes "g = run empty_graph ops" and "g' = removeFile (addFile g f) (path f)"
    and "s \<in> set (file_symbols f)"
  shows "\<not> hasSymbol g' (sym_id s)
    \<and> (\<forall>r x. fromSymbolId r = sym_id s \<or> toSymbolId r = sym_id s \<longrightarrow>
          r \<notin> set (findCallers g' x) \<and> r \<notin> set (findCallees g' x))"
proof -
  let ?g1 = "addFile g f"
  let ?g2 = "foldl removeFile_symbol ?g1 (file_symbols f)"
  have l1: "linked ?g1"
    using assms(1) by (simp add: linked_addFile linked_reachable)
  have f1: "map_of (files ?g1) (path f) = Some f"
    by (simp add: addFile_files update_conv')
  have sy: "symbols g' = symbols ?g2" and rf: "references g' = references ?g2"
    and ou: "symbolToReferences g' = symbolToReferences ?g2"
    and inc: "symbolToCallers g' = symbolToCallers ?g2"
    using f1 by (simp_all add: assms(2) removeFile_def Let_def)
  have "\<not> hasSymbol g' (sym_id s)"
    using assms(3) by (simp add: hasSymbol_def sy removeFile_loop_symbols)
  moreover have "fromSymbolId r \<noteq> sym_id s \<and> toSymbolId r \<noteq> sym_id s"
    if "refOf g' k = Some r" for k r
    using removeFile_loop_excised[OF l1, of "file_symbols f" k r] that assms(3)
    by (simp add: rf)
  ultimately show ?thesis
    using findCallers_stored[of _ g'] findCallees_stored[of _ g'] by blast
qed

text \<open>
  C10 (no-op on an unknown file): for every state and every path with \<^verbatim>\<open>hasFile(path)\<close>
  false, \<^verbatim>\<open>removeFile(path)\<close> returns the state unchanged: symbol table, reference
  table, both adjacency indices, file map and dirty set.
\<close>

theorem removeFile_unknown:
  "\<not> hasFile g filePath \<Longrightarrow> removeFile g filePath = g"
  by (simp add: hasFile_def removeFile_def)

text \<open>
  C8 (sentinel not-found semantics): for every state and every id that is not a key of the
  symbol table, \<^verbatim>\<open>getSymbol(id)\<close> is the default symbol, whose id is the empty string,
  and \<^verbatim>\<open>hasSymbol(id)\<close> is false; \<^verbatim>\<open>findCallers\<close> and \<^verbatim>\<open>findCallees\<close> on an id
  with no adjacency entry are the empty list. Every lookup is a total function: there is
  no error result.
\<close>

theorem sentinel_lookups:
  "(symbolId \<notin> fst ` set (symbols g) \<longrightarrow>
      getSymbol g symbolId = Symbol_default \<and> sym_id (getSymbol g symbolId) = []
      \<and> \<not> hasSymbol g symbolId)
   \<and> (symbolId \<notin> fst ` set (symbolToCallers g) \<longrightarrow> findCallers g symbolId = [])
   \<and> (symbolId \<notin> fst ` set (symbolToReferences g) \<longrightarrow> findCallees g symbolId = [])"
  by (simp add: getSymbol_def hasSymbol_def findCallers_def findCallees_def Symbol_default_def
      map_of_eq_None_iff[symmetric])

text \<open>
  C6 (symmetry of adjacency, amended): in any state reached by public operations after
  \<^verbatim>\<open>addReference(r)\<close> in which \<open>r\<close> is still the entry stored under \<open>r.id\<close> (neither
  removed, nor overwritten by a later \<^verbatim>\<open>addReference\<close> with the same id),
  \<^verbatim>\<open>findCallees(r.fromSymbolId)\<close> contains \<open>r\<close> and \<^verbatim>\<open>findCallers(r.toSymbolId)\<close>
  contains \<open>r\<close>. A batch is the sequence of its single calls
  (lemma \<open>addReferences_as_calls\<close>), so the states in the middle of a batch are among
  the states \<open>g0\<close>.
\<close>

theorem symmetry_of_stored:
  assumes "g0 = run empty_graph ops0" and "g = run (addReference g0 r) ops"
    and "map_of (references g) (ref_id r) = Some r"
  shows "r \<in> set (findCallees g (fromSymbolId r)) \<and> r \<in> set (findCallers g (toSymbolId r))"
proof -
  have "linked g"
    using assms(1,2) by (simp add: linked_run linked_addReference linked_reachable)
  from linkedD(2,3)[OF this assms(3)] assms(3) show ?thesis
    by (auto simp add: findCallers_map_filter findCallees_map_filter set_map_filter)
qed

lemma removeReferences_symbolToReferences:
  "symbolToReferences (removeReferences g s) = AList.delete s (symbolToReferences g)"
proof (cases "map_of (symbolToReferences g) s")
  case None
  then have "s \<notin> fst ` set (symbolToReferences g)" by (simp add: map_of_eq_None_iff)
  with None show ?thesis by (simp add: removeReferences_def)
next
  case (Some ids)
  then show ?thesis by (simp add: removeReferences_def Let_def rr_loop_frame)
qed



subsection \<open>Re-adding a reference with its endpoints\<close>

lemma sound_update [simp]:
  "sound (g\<lparr>symbols := x\<rparr>) = sound g"
  "sound (g\<lparr>files := y\<rparr>) = sound g"
  "sound (g\<lparr>dirtyFiles := z\<rparr>) = sound g"
  by (simp_all add: sound_def)

lemma sound_frame:
  assumes "references g' = references g" "symbolToReferences g' = symbolToReferences g"
    "symbolToCallers g' = symbolToCallers g"
  shows "sound g' = sound g"
  by (simp add: sound_def assms)

lemma sound_empty: "sound empty_graph"
  by (simp add: sound_def empty_graph_def at_default_def)

lemma sound_clear: "sound (clear g)"
  by (simp add: sound_def clear_def at_default_def)

lemma sound_outD:
  assumes "sound g" "k \<in> set (outgoing g s)"
  shows "\<exists>r. refOf g k = Some r \<and> fromSymbolId r = s"
  using assms by (simp add: sound_def)

lemma sound_incD:
  assumes "sound g" "k \<in> set (incoming g t)"
  shows "\<exists>r. refOf g k = Some r \<and> toSymbolId r = t"
  using assms by (simp add: sound_def)

lemma sound_addReference:
  assumes "sound g" "steady_add g r"
  shows "sound (addReference g r)"
proof -
  have "\<exists>r'. refOf (addReference g r) k = Some r' \<and> fromSymbolId r' = s"
    if "k \<in> set (outgoing (addReference g r) s)" for k s
  proof (cases "k \<in> set (outgoing g s)")
    case True
    from sound_outD[OF assms(1) this] obtain r' where r': "refOf g k = Some r'"
      "fromSymbolId r' = s"
      by blast
    show ?thesis
    proof (cases "k = ref_id r")
      case True
      with r' assms(2) have "fromSymbolId r = s" by (simp add: steady_add_def)
      with True show ?thesis by (simp add: addReference_refOf)
    next
      case False
      with r' show ?thesis by (simp add: addReference_refOf)
    qed
  next
    case False
    with that have "k = ref_id r \<and> s = fromSymbolId r"
      by (auto simp add: addReference_outgoing split: if_splits)
    then show ?thesis by (simp add: addReference_refOf)
  qed
  moreover have "\<exists>r'. refOf (addReference g r) k = Some r' \<and> toSymbolId r' = t"
    if "k \<in> set (incoming (addReference g r) t)" for k t
  proof (cases "k \<in> set (incoming g t)")
    case True
    from sound_incD[OF assms(1) this] obtain r' where r': "refOf g k = Some r'"
      "toSymbolId r' = t"
      by blast
    show ?thesis
    proof (cases "k = ref_id r")
      case True
      with r' assms(2) have "toSymbolId r = t" by (simp add: steady_add_def)
      with True show ?thesis by (simp add: addReference_refOf)
    next
      case False
      with r' show ?thesis by (simp add: addReference_refOf)
    qed
  next
    case False
    with that have "k = ref_id r \<and> t = toSymbolId r"
      by (auto simp add: addReference_incoming split: if_splits)
    then show ?thesis by (simp add: addReference_refOf)
  qed
  ultimately show ?thesis
    unfolding sound_def by blast
qed

lemma sound_removeReferences:
  assumes "sound g"
  shows "sound (removeReferences g s)"
proof -
  have "\<exists>r. refOf (removeReferences g s) k = Some r \<and> fromSymbolId r = s'"
    if "k \<in> set (outgoing (removeReferences g s) s')" for k s'
  proof -
    from that have ne: "s' \<noteq> s" and k: "k \<in> set (outgoing g s')"
      by (auto simp add: removeReferences_outgoing split: if_splits)
    from sound_outD[OF assms k] obtain r where r: "refOf g k = Some r" "fromSymbolId r = s'"
      by blast
    have "k \<notin> set (outgoing g s)"
      using sound_outD[OF assms, of k s] r ne by auto
    with r show ?thesis by (simp add: removeReferences_refOf)
  qed
  moreover have "\<exists>r. refOf (removeReferences g s) k = Some r \<and> toSymbolId r = t"
    if "k \<in> set (incoming (removeReferences g s) t)" for k t
  proof -
    from that have k: "k \<in> set (incoming g t)"
      and n: "\<not> (k \<in> set (outgoing g s) \<and> (\<exists>r. refOf g k = Some r \<and> toSymbolId r = t))"
      by (simp_all add: removeReferences_incoming)
    from sound_incD[OF assms k] obtain r where r: "refOf g k = Some r" "toSymbolId r = t"
      by blast
    with n have "k \<notin> set (outgoing g s)" by blast
    with r show ?thesis by (simp add: removeReferences_refOf)
  qed
  ultimately show ?thesis
    unfolding sound_def by blast
qed

lemma sound_removeCallers:
  assumes "sound g"
  shows "sound (removeCallers g t)"
proof -
  have "\<exists>r. refOf (removeCallers g t) k = Some r \<and> toSymbolId r = t'"
    if "k \<in> set (incoming (removeCallers g t) t')" for k t'
  proof -
    from that have ne: "t' \<noteq> t" and k: "k \<in> set (incoming g t')"
      by (auto simp add: removeCallers_incoming split: if_splits)
    from sound_incD[OF assms k] obtain r where r: "refOf g k = Some r" "toSymbolId r = t'"
      by blast
    have "k \<notin> set (incoming g t)"
      using sound_incD[OF assms, of k t] r ne by auto
    with r show ?thesis by (simp add: removeCallers_refOf)
  qed
  moreover have "\<exists>r. refOf (removeCallers g t) k = Some r \<and> fromSymbolId r = s"
    if "k \<in> set (outgoing (removeCallers g t) s)" for k s
  proof -
    from that have k: "k \<in> set (outgoing g s)"
      and n: "\<not> (k \<in> set (incoming g t) \<and> (\<exists>r. refOf g k = Some r \<and> fromSymbolId r = s))"
      by (simp_all add: removeCallers_outgoing)
    from sound_outD[OF assms k] obtain r where r: "refOf g k = Some r" "fromSymbolId r = s"
      by blast
    with n have "k \<notin> set (incoming g t)" by blast
    with r show ?thesis by (simp add: removeCallers_refOf)
  qed
  ultimately show ?thesis
    unfolding sound_def by blast
qed

lemma sound_foldl:
  assumes "\<And>g x. sound g \<Longrightarrow> sound (f g x)"
  shows "sound g \<Longrightarrow> sound (foldl f g xs)"
  by (induction xs arbitrary: g) (simp_all add: assms)

lemma sound_removeFile_symbol: "sound g \<Longrightarrow> sound (removeFile_symbol g sy)"
  by (simp add: removeFile_symbol_def Let_def sound_removeCallers sound_removeReferences)

lemma sound_removeFile: "sound g \<Longrightarrow> sound (removeFile g p)"
  by (simp add: removeFile_def Let_def sound_foldl sound_removeFile_symbol split: option.splits)

lemma sound_addFile: "sound g \<Longrightarrow> sound (addFile g f)"
  by (simp add: sound_frame[of "addFile g f" g] addFile_frame)

lemma sound_batch:
  "sound g \<Longrightarrow> steady_batch g rs \<Longrightarrow> sound (foldl addReference g rs)"
  by (induction rs arbitrary: g) (simp_all add: sound_addReference)

lemma sound_perform: "sound g \<Longrightarrow> steady_op g opn \<Longrightarrow> sound (perform g opn)"
proof (cases opn)
  case (AddSymbol s)
  assume "sound g" then show ?thesis
    by (simp add: AddSymbol addSymbol_def)
next
  case (AddSymbols ss)
  assume "sound g" then show ?thesis
    by (simp add: AddSymbols sound_frame[of "addSymbols g ss" g] addSymbols_frame)
next
  case (AddReference r)
  assume "sound g" "steady_op g opn" then show ?thesis
    by (simp add: AddReference sound_addReference)
next
  case (AddReferences rs)
  assume "sound g" "steady_op g opn" then show ?thesis
    by (simp add: AddReferences addReferences_def sound_batch)
next
  case (RemoveReferences s)
  assume "sound g" then show ?thesis
    by (simp add: RemoveReferences sound_removeReferences)
next
  case (AddFile f)
  assume "sound g" then show ?thesis
    by (simp add: AddFile sound_addFile)
next
  case (UpdateFile p f)
  assume "sound g" then show ?thesis
    by (simp add: UpdateFile updateFile_def sound_addFile sound_removeFile)
next
  case (RemoveFile p)
  assume "sound g" then show ?thesis
    by (simp add: RemoveFile sound_removeFile)
next
  case (MarkFileDirty p)
  assume "sound g" then show ?thesis
    by (simp add: MarkFileDirty markFileDirty_def)
next
  case ClearDirtyFiles
  assume "sound g" then show ?thesis
    by (simp add: ClearDirtyFiles clearDirtyFiles_def)
next
  case Clear
  then show ?thesis by (simp add: sound_clear)
qed

lemma sound_run: "sound g \<Longrightarrow> steady_run g ops \<Longrightarrow> sound (run g ops)"
  unfolding run_def
  by (induction ops arbitrary: g) (simp_all add: sound_perform)

lemma sound_reachable: "steady_run empty_graph ops \<Longrightarrow> sound (run empty_graph ops)"
  by (rule sound_run) (simp_all add: sound_empty)

text \<open>A sequence that only adds unused ids is steady.\<close>

lemma fresh_steady_add: "refOf g (ref_id r) = None \<Longrightarrow> steady_add g r"
  by (simp add: steady_add_def)

lemma fresh_steady_batch: "fresh_batch g rs \<Longrightarrow> steady_batch g rs"
  by (induction rs arbitrary: g) (simp_all add: fresh_steady_add)

lemma fresh_steady_op: "fresh_op g opn \<Longrightarrow> steady_op g opn"
  by (cases opn) (simp_all add: fresh_steady_add fresh_steady_batch)

lemma fresh_steady_run: "fresh_run g ops \<Longrightarrow> steady_run g ops"
  by (induction ops arbitrary: g) (simp_all add: fresh_steady_op)

lemma sound_outgoing_iff:
  assumes "linked g" "sound g"
  shows "k \<in> set (outgoing g s) \<longleftrightarrow> (\<exists>r. refOf g k = Some r \<and> fromSymbolId r = s)"
  using sound_outD[OF assms(2), of k s] linkedD(2)[OF assms(1), of k] by blast

text \<open>
  C4 (removeReferences contract, amended): in every state reached by a sequence of public
  operations that adds a reference under an id present in the reference table only with
  the endpoints of the stored reference,
  \<^verbatim>\<open>removeReferences(symbolId)\<close> deletes from the reference table exactly the references
  whose \<open>fromSymbolId\<close> is \<open>symbolId\<close>, removes exactly their ids from the incoming
  vectors (so the id of each deleted reference is gone from the incoming vector of its
  target), erases the outgoing entry of \<open>symbolId\<close>, keeps every reference whose target
  is \<open>symbolId\<close> and whose source differs, and leaves symbols, files and dirty set alone.
\<close>

theorem removeReferences_contract:
  assumes "steady_run empty_graph ops" and "g = run empty_graph ops"
    and "g' = removeReferences g symbolId"
  shows "(\<forall>k. map_of (references g') k =
            (case map_of (references g) k of
               None \<Rightarrow> None
             | Some r \<Rightarrow> if fromSymbolId r = symbolId then None else Some r))
    \<and> (\<forall>t. at_default (symbolToCallers g') t =
            filter (\<lambda>k. \<forall>r. map_of (references g) k = Some r \<longrightarrow> fromSymbolId r \<noteq> symbolId)
              (at_default (symbolToCallers g) t))
    \<and> (\<forall>k r. map_of (references g) k = Some r \<and> fromSymbolId r = symbolId \<longrightarrow>
            k \<notin> set (at_default (symbolToCallers g') (toSymbolId r)))
    \<and> symbolToReferences g' = AList.delete symbolId (symbolToReferences g)
    \<and> map_of (symbolToReferences g') symbolId = None
    \<and> (\<forall>k r. map_of (references g) k = Some r \<and> toSymbolId r = symbolId
            \<and> fromSymbolId r \<noteq> symbolId \<longrightarrow> map_of (references g') k = Some r)
    \<and> symbols g' = symbols g \<and> files g' = files g \<and> dirtyFiles g' = dirtyFiles g"
proof -
  from assms(1,2) have m: "linked g" "sound g"
    by (simp_all add: linked_reachable sound_reachable)
  note out = sound_outgoing_iff[OF m]
  have refs: "refOf g' k =
      (case refOf g k of None \<Rightarrow> None
       | Some r \<Rightarrow> if fromSymbolId r = symbolId then None else Some r)" for k
    by (auto simp add: assms(3) removeReferences_refOf out split: option.splits)
  have inc: "incoming g' t =
      filter (\<lambda>k. \<forall>r. refOf g k = Some r \<longrightarrow> fromSymbolId r \<noteq> symbolId) (incoming g t)" for t
    unfolding assms(3) removeReferences_incoming
  proof (rule filter_cong[OF refl])
    fix k assume "k \<in> set (incoming g t)"
    from sound_incD[OF m(2) this] obtain r where "refOf g k = Some r" "toSymbolId r = t"
      by blast
    then show "(\<not> (k \<in> set (outgoing g symbolId) \<and> (\<exists>r. refOf g k = Some r \<and> toSymbolId r = t)))
       = (\<forall>r. refOf g k = Some r \<longrightarrow> fromSymbolId r \<noteq> symbolId)"
      by (auto simp add: out)
  qed
  have pruned: "k \<notin> set (incoming g' (toSymbolId r))"
    if "refOf g k = Some r \<and> fromSymbolId r = symbolId" for k r
    using that by (simp add: inc)
  have del: "symbolToReferences g' = AList.delete symbolId (symbolToReferences g)"
    by (simp add: assms(3) removeReferences_symbolToReferences)
  have gone: "map_of (symbolToReferences g') symbolId = None"
    by (simp add: del delete_conv')
  have kept: "refOf g' k = Some r"
    if "refOf g k = Some r \<and> toSymbolId r = symbolId \<and> fromSymbolId r \<noteq> symbolId" for k r
    using that by (simp add: refs)
  have frame: "symbols g' = symbols g \<and> files g' = files g \<and> dirtyFiles g' = dirtyFiles g"
    by (simp add: assms(3) removeReferences_frame)
  from refs inc pruned del gone kept frame show ?thesis by blast
qed


section \<open>The containers never list a key twice\<close>

lemma distinct_keys_foldl:
  assumes "\<And>g x. distinct_keys g \<Longrightarrow> distinct_keys (f g x)"
  shows "distinct_keys g \<Longrightarrow> distinct_keys (foldl f g xs)"
  by (induction xs arbitrary: g) (simp_all add: assms)

lemma distinct_keys_addSymbol: "distinct_keys g \<Longrightarrow> distinct_keys (addSymbol g s)"
  by (simp add: distinct_keys_def addSymbol_def distinct_update)

lemma distinct_keys_addReference: "distinct_keys g \<Longrightarrow> distinct_keys (addReference g r)"
  by (simp add: distinct_keys_def addReference_def Let_def distinct_update)

lemma distinct_keys_rr_body: "distinct_keys g \<Longrightarrow> distinct_keys (removeReferences_body g i)"
  by (simp add: distinct_keys_def removeReferences_body_def distinct_update distinct_delete
      split: option.splits)

lemma distinct_keys_rf_body: "distinct_keys g \<Longrightarrow> distinct_keys (removeFile_body g i)"
  by (simp add: distinct_keys_def removeFile_body_def distinct_update distinct_delete
      split: option.splits)

lemma distinct_keys_drop:
  assumes "distinct_keys g"
  shows "distinct_keys (g\<lparr>symbolToReferences := AList.delete k (symbolToReferences g)\<rparr>)"
    "distinct_keys (g\<lparr>symbolToCallers := AList.delete k (symbolToCallers g)\<rparr>)"
    "distinct_keys (g\<lparr>symbols := AList.delete k (symbols g)\<rparr>)"
    "distinct_keys (g\<lparr>files := AList.delete k (files g)\<rparr>)"
    "distinct_keys (g\<lparr>files := AList.update k f (files g)\<rparr>)"
  using assms by (simp_all add: distinct_keys_def distinct_delete distinct_update)

lemma distinct_keys_removeReferences:
  "distinct_keys g \<Longrightarrow> distinct_keys (removeReferences g s)"
  by (simp add: removeReferences_def Let_def distinct_keys_drop distinct_keys_foldl
      distinct_keys_rr_body split: option.splits)

lemma distinct_keys_removeCallers:
  "distinct_keys g \<Longrightarrow> distinct_keys (removeCallers g s)"
  by (simp add: removeCallers_def Let_def distinct_keys_drop distinct_keys_foldl
      distinct_keys_rf_body split: option.splits)

lemma distinct_keys_removeFile_symbol:
  "distinct_keys g \<Longrightarrow> distinct_keys (removeFile_symbol g sy)"
  by (simp add: removeFile_symbol_def Let_def distinct_keys_drop distinct_keys_removeCallers
      distinct_keys_removeReferences)

lemma distinct_keys_removeFile: "distinct_keys g \<Longrightarrow> distinct_keys (removeFile g p)"
  by (simp add: removeFile_def Let_def distinct_keys_drop distinct_keys_foldl
      distinct_keys_removeFile_symbol split: option.splits)

lemma distinct_keys_addFile: "distinct_keys g \<Longrightarrow> distinct_keys (addFile g f)"
  by (simp add: addFile_def addSymbols_def distinct_keys_drop distinct_keys_foldl
      distinct_keys_addSymbol)

lemma distinct_keys_perform: "distinct_keys g \<Longrightarrow> distinct_keys (perform g opn)"
  by (cases opn)
    (simp_all add: distinct_keys_addSymbol addSymbols_def addReferences_def distinct_keys_foldl
      distinct_keys_addReference distinct_keys_removeReferences distinct_keys_addFile
      updateFile_def distinct_keys_removeFile,
     simp_all add: distinct_keys_def markFileDirty_def clearDirtyFiles_def clear_def)

lemma distinct_keys_empty: "distinct_keys empty_graph"
  by (simp add: distinct_keys_def empty_graph_def)

lemma distinct_keys_reachable: "distinct_keys (run empty_graph ops)"
  unfolding run_def by (rule distinct_keys_foldl[OF distinct_keys_perform distinct_keys_empty])

section \<open>The concrete project, evaluated\<close>

lemmas graph_eval =
  run_def empty_graph_def addSymbol_def addSymbols_def addReference_def addReferences_def
  removeReferences_def removeReferences_body_def removeCallers_def removeFile_body_def
  removeFile_symbol_def removeFile_def addFile_def updateFile_def at_default_def Let_def
  findCallers_def findCallees_def resolve_def hasSymbol_def getSymbol_def getAllSymbols_def
  isSymbolUsed_def findUnusedSymbols_def hasFile_def
  sym_foo_def sym_bar_def ref_r1_def ref_r1_retyped_def ref_r1_moved_def ref_r2_def
  ref_r3_def file_f1_def scenario_def stale_scenario_def steady_scenario_def
  steady_add_def Symbol_default_def

lemma scenario_fresh: "fresh_run empty_graph scenario"
  by (simp add: graph_eval)

text \<open>The invariant of C1 at the reference \<^verbatim>\<open>r1\<close> of the project.\<close>

theorem mirroring_invariant_witness:
  "fresh_run empty_graph scenario
   \<and> map_of (references (run empty_graph scenario)) ''r1'' = Some ref_r1
   \<and> ref_id ref_r1 = ''r1'' \<and> mirrors (run empty_graph scenario) ref_r1"
proof -
  have h: "map_of (references (run empty_graph scenario)) ''r1'' = Some ref_r1"
    by (simp add: graph_eval)
  from mirroring_invariant[OF scenario_fresh refl h] scenario_fresh h show ?thesis by simp
qed

text \<open>
  C1 as stated fails when a reference is added twice: it is in the table, and its id is
  in the outgoing vector of its source twice.
\<close>

theorem mirroring_counterexample:
  "map_of (references (run empty_graph [AddReference ref_r1, AddReference ref_r1])) (ref_id ref_r1)
     = Some ref_r1
   \<and> count_list (at_default (symbolToReferences
        (run empty_graph [AddReference ref_r1, AddReference ref_r1])) (fromSymbolId ref_r1))
        (ref_id ref_r1) = 2
   \<and> \<not> mirrors (run empty_graph [AddReference ref_r1, AddReference ref_r1]) ref_r1"
  by (simp add: graph_eval mirrors_def)

text \<open>C2 on the project: the file is added again and removed; \<^verbatim>\<open>foo\<close> and \<^verbatim>\<open>r1\<close> go.\<close>

theorem cascading_delete_witness:
  "sym_foo \<in> set (file_symbols file_f1)
   \<and> toSymbolId ref_r1 = sym_id sym_foo
   \<and> ref_r1 \<in> set (findCallers (run empty_graph scenario) ''f1::foo::1'')
   \<and> \<not> hasSymbol (removeFile (addFile (run empty_graph scenario) file_f1) (path file_f1))
          (sym_id sym_foo)
   \<and> ref_r1 \<notin> set (findCallers
          (removeFile (addFile (run empty_graph scenario) file_f1) (path file_f1)) ''f1::foo::1'')
   \<and> ref_r1 \<notin> set (findCallees
          (removeFile (addFile (run empty_graph scenario) file_f1) (path file_f1)) ''f1::bar::5'')"
proof -
  have h: "sym_foo \<in> set (file_symbols file_f1)" by (simp add: file_f1_def)
  have t: "toSymbolId ref_r1 = sym_id sym_foo" by (simp add: graph_eval)
  have b: "ref_r1 \<in> set (findCallers (run empty_graph scenario) ''f1::foo::1'')"
    by (simp add: graph_eval)
  from cascading_delete[OF refl refl h, of scenario] h t b show ?thesis by blast
qed



text \<open>
  The contract of C4 on the project with \<^verbatim>\<open>r1\<close> added twice: removing the references of
  \<^verbatim>\<open>foo\<close> deletes its recursive call \<^verbatim>\<open>r2\<close> and keeps the call \<^verbatim>\<open>r1\<close> from
  \<^verbatim>\<open>bar\<close>; removing the references of \<^verbatim>\<open>bar\<close> deletes \<^verbatim>\<open>r1\<close> and takes both
  copies of its id out of the incoming vector of \<^verbatim>\<open>foo\<close>.
\<close>

theorem removeReferences_contract_witness:
  "steady_run empty_graph steady_scenario \<and> \<not> fresh_run empty_graph steady_scenario
   \<and> at_default (symbolToCallers (run empty_graph steady_scenario)) ''f1::foo::1''
        = [''r1'', ''r1'', ''r2'']
   \<and> map_of (references (run empty_graph steady_scenario)) ''r2'' = Some ref_r2
   \<and> fromSymbolId ref_r2 = ''f1::foo::1''
   \<and> map_of (references (run empty_graph steady_scenario)) ''r1'' = Some ref_r1_retyped
   \<and> toSymbolId ref_r1_retyped = ''f1::foo::1''
   \<and> fromSymbolId ref_r1_retyped = ''f1::bar::5''
   \<and> map_of (references (removeReferences (run empty_graph steady_scenario) ''f1::foo::1''))
        ''r2'' = None
   \<and> ''r2'' \<notin> set (at_default
        (symbolToCallers (removeReferences (run empty_graph steady_scenario) ''f1::foo::1''))
        (toSymbolId ref_r2))
   \<and> map_of (symbolToReferences (removeReferences (run empty_graph steady_scenario)
        ''f1::foo::1'')) ''f1::foo::1'' = None
   \<and> map_of (references (removeReferences (run empty_graph steady_scenario) ''f1::foo::1''))
        ''r1'' = Some ref_r1_retyped
   \<and> map_of (references (removeReferences (run empty_graph steady_scenario) ''f1::bar::5''))
        ''r1'' = None
   \<and> ''r1'' \<notin> set (at_default
        (symbolToCallers (removeReferences (run empty_graph steady_scenario) ''f1::bar::5''))
        (toSymbolId ref_r1_retyped))"
proof -
  have st: "steady_run empty_graph steady_scenario"
    and nf: "\<not> fresh_run empty_graph steady_scenario"
    and v: "at_default (symbolToCallers (run empty_graph steady_scenario)) ''f1::foo::1''
        = [''r1'', ''r1'', ''r2'']"
    and h2: "map_of (references (run empty_graph steady_scenario)) ''r2'' = Some ref_r2"
    and f2: "fromSymbolId ref_r2 = ''f1::foo::1''"
    and h1: "map_of (references (run empty_graph steady_scenario)) ''r1'' = Some ref_r1_retyped"
    and t1: "toSymbolId ref_r1_retyped = ''f1::foo::1''"
    and s1: "fromSymbolId ref_r1_retyped = ''f1::bar::5''"
    by (simp_all add: graph_eval)
  from s1 have n1: "fromSymbolId ref_r1_retyped \<noteq> ''f1::foo::1''" by simp
  note c = removeReferences_contract[OF st refl refl, of "''f1::foo::1''"]
  note c' = removeReferences_contract[OF st refl refl, of "''f1::bar::5''"]
  from c h2 f2
  have a: "map_of (references (removeReferences (run empty_graph steady_scenario) ''f1::foo::1''))
      ''r2'' = None"
    by simp
  from c h2 f2
  have b: "''r2'' \<notin> set (at_default
      (symbolToCallers (removeReferences (run empty_graph steady_scenario) ''f1::foo::1''))
      (toSymbolId ref_r2))"
    by blast
  from c
  have d: "map_of (symbolToReferences (removeReferences (run empty_graph steady_scenario)
      ''f1::foo::1'')) ''f1::foo::1'' = None"
    by blast
  from c h1 t1 n1
  have e: "map_of (references (removeReferences (run empty_graph steady_scenario) ''f1::foo::1''))
      ''r1'' = Some ref_r1_retyped"
    by blast
  from c' h1 s1
  have a': "map_of (references (removeReferences (run empty_graph steady_scenario) ''f1::bar::5''))
      ''r1'' = None"
    by simp
  from c' h1 s1
  have b': "''r1'' \<notin> set (at_default
      (symbolToCallers (removeReferences (run empty_graph steady_scenario) ''f1::bar::5''))
      (toSymbolId ref_r1_retyped))"
    by blast
  from st nf v h2 f2 h1 t1 s1 a b d e a' b' show ?thesis by blast
qed

text \<open>
  C4 as stated fails after a reference is added again with other endpoints:
  \<^verbatim>\<open>removeReferences\<close> of the old source deletes a reference that has this symbol as
  its target and another symbol as its source.
\<close>

theorem removeReferences_counterexample:
  "map_of (references (run empty_graph [AddReference ref_r1, AddReference ref_r1_moved])) ''r1''
     = Some ref_r1_moved
   \<and> toSymbolId ref_r1_moved = ''f1::bar::5'' \<and> fromSymbolId ref_r1_moved \<noteq> ''f1::bar::5''
   \<and> map_of (references (removeReferences
        (run empty_graph [AddReference ref_r1, AddReference ref_r1_moved]) ''f1::bar::5'')) ''r1''
     = None"
  by (simp add: graph_eval)

text \<open>C6 on the project: \<^verbatim>\<open>r1\<close> is added to a graph with the file and stays stored.\<close>

theorem symmetry_of_stored_witness:
  "map_of (references (run (addReference (run empty_graph [AddFile file_f1]) ref_r1)
        [AddReferences [ref_r2], MarkFileDirty ''f1''])) (ref_id ref_r1) = Some ref_r1
   \<and> ref_r1 \<in> set (findCallees (run (addReference (run empty_graph [AddFile file_f1]) ref_r1)
        [AddReferences [ref_r2], MarkFileDirty ''f1'']) (fromSymbolId ref_r1))
   \<and> ref_r1 \<in> set (findCallers (run (addReference (run empty_graph [AddFile file_f1]) ref_r1)
        [AddReferences [ref_r2], MarkFileDirty ''f1'']) (toSymbolId ref_r1))"
proof -
  have h: "map_of (references (run (addReference (run empty_graph [AddFile file_f1]) ref_r1)
        [AddReferences [ref_r2], MarkFileDirty ''f1''])) (ref_id ref_r1) = Some ref_r1"
    by (simp add: graph_eval markFileDirty_def)
  from symmetry_of_stored[OF refl refl h] h show ?thesis by simp
qed

text \<open>
  C6 as stated fails when the reference is added again under its id with another type:
  no removing call is made, and neither \<^verbatim>\<open>findCallers\<close> nor \<^verbatim>\<open>findCallees\<close> returns
  the reference that was added first.
\<close>

theorem symmetry_counterexample:
  "\<not> list_ex removal [AddReference ref_r1_retyped]
   \<and> ref_r1 \<notin> set (findCallers (run (addReference empty_graph ref_r1) [AddReference ref_r1_retyped])
        (toSymbolId ref_r1))
   \<and> ref_r1 \<notin> set (findCallees (run (addReference empty_graph ref_r1) [AddReference ref_r1_retyped])
        (fromSymbolId ref_r1))"
  by (simp add: graph_eval)

text \<open>C7 on the project: \<^verbatim>\<open>bar\<close> has no caller and is reported unused.\<close>

theorem used_unused_partition_witness:
  "sym_bar \<in> set (getAllSymbols (run empty_graph scenario))
   \<and> \<not> isSymbolUsed (run empty_graph scenario) (sym_id sym_bar)
   \<and> isSymbolUsed (run empty_graph scenario) (sym_id sym_bar)
       \<noteq> (sym_bar \<in> set (findUnusedSymbols (run empty_graph scenario)))"
proof -
  have h: "sym_bar \<in> set (getAllSymbols (run empty_graph scenario))"
    by (simp add: graph_eval)
  have u: "\<not> isSymbolUsed (run empty_graph scenario) (sym_id sym_bar)"
    by (simp add: graph_eval)
  from used_unused_partition[OF refl h] h u show ?thesis by simp
qed

text \<open>C8 on the project, at an id that no container knows.\<close>

theorem sentinel_lookups_witness:
  "''f9::nope::1'' \<notin> fst ` set (symbols (run empty_graph scenario))
   \<and> ''f9::nope::1'' \<notin> fst ` set (symbolToCallers (run empty_graph scenario))
   \<and> ''f9::nope::1'' \<notin> fst ` set (symbolToReferences (run empty_graph scenario))
   \<and> getSymbol (run empty_graph scenario) ''f9::nope::1'' = Symbol_default
   \<and> sym_id (getSymbol (run empty_graph scenario) ''f9::nope::1'') = []
   \<and> \<not> hasSymbol (run empty_graph scenario) ''f9::nope::1''
   \<and> findCallers (run empty_graph scenario) ''f9::nope::1'' = []
   \<and> findCallees (run empty_graph scenario) ''f9::nope::1'' = []"
proof -
  have h: "''f9::nope::1'' \<notin> fst ` set (symbols (run empty_graph scenario))"
    "''f9::nope::1'' \<notin> fst ` set (symbolToCallers (run empty_graph scenario))"
    "''f9::nope::1'' \<notin> fst ` set (symbolToReferences (run empty_graph scenario))"
    by (simp_all add: graph_eval)
  from sentinel_lookups[of "''f9::nope::1''" "run empty_graph scenario"] h
  show ?thesis by blast
qed

text \<open>C10 on the project: \<^verbatim>\<open>f2\<close> was never added.\<close>

theorem removeFile_unknown_witness:
  "\<not> hasFile (run empty_graph scenario) ''f2''
   \<and> removeFile (run empty_graph scenario) ''f2'' = run empty_graph scenario"
proof -
  have h: "\<not> hasFile (run empty_graph scenario) ''f2''"
    by (simp add: graph_eval)
  from removeFile_unknown[OF h] h show ?thesis by simp
qed

end
